theory Spec2Isabelle
  imports Main "HOL-Library.Finite_Map" "HOL-Library.Word" "HOL-Library.Signed_Division"
begin

section \<open>syncmap: the map behind one reader/writer lock\<close>

text \<open>
  \<^verbatim>\<open>type SyncMap[K comparable, V any] struct { wrapped map[K]V; mux sync.RWMutex }\<close>

  A Go map is a finite map, so \<open>wrapped\<close> is an \<open>fmap\<close>. The mutex holds no data: every
  method body below is one critical section, or a read section (the call of \<open>m.Load\<close>)
  followed by a write section, and is modelled as a function from the map before to the
  result and the map after. Go's zero value of the value type \<open>V\<close>, which a lookup of a
  missing key returns, is the parameter \<open>z\<close> of every operation that reads the map.
\<close>

record ('k, 'v) SyncMap =
  wrapped :: "('k, 'v) fmap"

text \<open>\<^verbatim>\<open>func New[K comparable, V any]() *SyncMap[K, V]\<close>\<close>

definition New :: "('k, 'v) SyncMap" where
  "New = \<lparr>wrapped = fmempty\<rparr>"

text \<open>The two-valued index expression \<^verbatim>\<open>value, ok = m.wrapped[key]\<close>.\<close>

definition index :: "'v \<Rightarrow> ('k, 'v) fmap \<Rightarrow> 'k \<Rightarrow> 'v \<times> bool" where
  "index z w key = (case fmlookup w key of Some value \<Rightarrow> (value, True) | None \<Rightarrow> (z, False))"

definition Load :: "'v \<Rightarrow> ('k, 'v) SyncMap \<Rightarrow> 'k \<Rightarrow> 'v \<times> bool" where
  "Load z m key = index z (wrapped m) key"

definition Swap :: "'v \<Rightarrow> ('k, 'v) SyncMap \<Rightarrow> 'k \<Rightarrow> 'v \<Rightarrow> ('v \<times> bool) \<times> ('k, 'v) SyncMap" where
  "Swap z m key value =
     (let (previous, loaded) = index z (wrapped m) key
      in ((previous, loaded), m\<lparr>wrapped := fmupd key value (wrapped m)\<rparr>))"

definition Store :: "'v \<Rightarrow> ('k, 'v) SyncMap \<Rightarrow> 'k \<Rightarrow> 'v \<Rightarrow> ('k, 'v) SyncMap" where
  "Store z m key value = snd (Swap z m key value)"

text \<open>The part of \<open>LoadAndDelete\<close> that runs under the write lock.\<close>

definition LoadAndDelete_locked ::
  "'v \<Rightarrow> ('k, 'v) SyncMap \<Rightarrow> 'k \<Rightarrow> ('v \<times> bool) \<times> ('k, 'v) SyncMap" where
  "LoadAndDelete_locked z m key =
     (let (value, loaded) = index z (wrapped m) key
      in ((value, loaded), m\<lparr>wrapped := fmdrop key (wrapped m)\<rparr>))"

definition LoadAndDelete ::
  "'v \<Rightarrow> ('k, 'v) SyncMap \<Rightarrow> 'k \<Rightarrow> ('v \<times> bool) \<times> ('k, 'v) SyncMap" where
  "LoadAndDelete z m key =
     (let (value, loaded) = Load z m key
      in if \<not> loaded then ((value, loaded), m)
         else LoadAndDelete_locked z m key)"

definition Delete :: "'v \<Rightarrow> ('k, 'v) SyncMap \<Rightarrow> 'k \<Rightarrow> ('k, 'v) SyncMap" where
  "Delete z m key = snd (LoadAndDelete z m key)"

definition LoadOrStore_locked ::
  "'v \<Rightarrow> ('k, 'v) SyncMap \<Rightarrow> 'k \<Rightarrow> 'v \<Rightarrow> ('v \<times> bool) \<times> ('k, 'v) SyncMap" where
  "LoadOrStore_locked z m key value =
     (let (actual, loaded) = index z (wrapped m) key
      in if loaded then ((actual, loaded), m)
         else ((value, False), m\<lparr>wrapped := fmupd key value (wrapped m)\<rparr>))"

definition LoadOrStore ::
  "'v \<Rightarrow> ('k, 'v) SyncMap \<Rightarrow> 'k \<Rightarrow> 'v \<Rightarrow> ('v \<times> bool) \<times> ('k, 'v) SyncMap" where
  "LoadOrStore z m key value =
     (let (actual, loaded) = Load z m key
      in if loaded then ((actual, loaded), m)
         else LoadOrStore_locked z m key value)"

text \<open>
  \<^verbatim>\<open>any(value) != any(old)\<close> compares the two values as interface values: by value
  for the basic types, by address for pointers. It is HOL's equality on \<open>'v\<close>, a pointer
  being modelled by its address. Both comparisons of \<open>CompareAndSwap\<close> drop the
  \<open>ok\<close> result of the lookup; those of \<open>CompareAndDelete\<close> test it.
\<close>

definition CompareAndSwap_locked ::
  "'v \<Rightarrow> ('k, 'v) SyncMap \<Rightarrow> 'k \<Rightarrow> 'v \<Rightarrow> 'v \<Rightarrow> bool \<times> ('k, 'v) SyncMap" where
  "CompareAndSwap_locked z m key old new =
     (let (value, _) = index z (wrapped m) key
      in if value \<noteq> old then (False, m)
         else (True, m\<lparr>wrapped := fmupd key new (wrapped m)\<rparr>))"

definition CompareAndSwap ::
  "'v \<Rightarrow> ('k, 'v) SyncMap \<Rightarrow> 'k \<Rightarrow> 'v \<Rightarrow> 'v \<Rightarrow> bool \<times> ('k, 'v) SyncMap" where
  "CompareAndSwap z m key old new =
     (let (value, _) = Load z m key
      in if value \<noteq> old then (False, m)
         else CompareAndSwap_locked z m key old new)"

definition CompareAndDelete_locked ::
  "'v \<Rightarrow> ('k, 'v) SyncMap \<Rightarrow> 'k \<Rightarrow> 'v \<Rightarrow> bool \<times> ('k, 'v) SyncMap" where
  "CompareAndDelete_locked z m key old =
     (let (value, loaded) = index z (wrapped m) key
      in if \<not> loaded \<or> value \<noteq> old then (False, m)
         else (True, m\<lparr>wrapped := fmdrop key (wrapped m)\<rparr>))"

definition CompareAndDelete ::
  "'v \<Rightarrow> ('k, 'v) SyncMap \<Rightarrow> 'k \<Rightarrow> 'v \<Rightarrow> bool \<times> ('k, 'v) SyncMap" where
  "CompareAndDelete z m key old =
     (let (value, loaded) = Load z m key
      in if \<not> loaded \<or> value \<noteq> old then (False, m)
         else CompareAndDelete_locked z m key old)"

text \<open>
  \<open>Keys\<close> appends every key of the map to a slice, in the order of Go's \<^verbatim>\<open>range\<close>
  over a map, which is not specified. The model is the set of its possible results:
  \<open>Keys m keys\<close> holds when \<open>keys\<close> lists each key of the map once, in any order.
\<close>

definition Keys :: "('k, 'v) SyncMap \<Rightarrow> 'k list \<Rightarrow> bool" where
  "Keys m keys \<longleftrightarrow> distinct keys \<and> set keys = fmdom' (wrapped m)"

definition Clear :: "('k, 'v) SyncMap \<Rightarrow> ('k, 'v) SyncMap" where
  "Clear m = m\<lparr>wrapped := fmempty\<rparr>"

text \<open>
  \<open>Call\<close> hands the map itself to \<open>f\<close>, which may insert, replace and delete entries in
  place: \<open>f\<close> is any function from the map before to the map after.
\<close>

definition Call :: "('k, 'v) SyncMap \<Rightarrow> (('k, 'v) fmap \<Rightarrow> ('k, 'v) fmap) \<Rightarrow> ('k, 'v) SyncMap" where
  "Call m f = m\<lparr>wrapped := f (wrapped m)\<rparr>"

text \<open>
  \<^verbatim>\<open>func (m *SyncMap[K, V]) Range(f func(key K, value V) bool)\<close>

  \<open>f\<close> is Go code that may call any method of the map and may keep state of its own
  (the variables its closure captures): it is a function of the key, the value and the
  state it runs in, the pair of its own state and the map, to its result and the state it
  leaves. The loop returns nothing; what it does is the sequence of its calls of \<open>f\<close>,
  which the model returns as a list, one \<open>visit\<close> per call: the arguments, the result and
  the state the call left.
\<close>

record ('k, 'v, 'c) visit =
  vkey :: 'k
  vvalue :: 'v
  vcontinue :: bool
  vafter :: "'c \<times> ('k, 'v) SyncMap"

fun Range_loop ::
  "'v \<Rightarrow> ('k \<Rightarrow> 'v \<Rightarrow> 'c \<times> ('k, 'v) SyncMap \<Rightarrow> bool \<times> 'c \<times> ('k, 'v) SyncMap) \<Rightarrow>
   'k list \<Rightarrow> 'c \<times> ('k, 'v) SyncMap \<Rightarrow> ('k, 'v, 'c) visit list" where
  "Range_loop z f [] s = []"
| "Range_loop z f (k # keys) s =
     (let (v, ok) = Load z (snd s) k
      in if \<not> ok then Range_loop z f keys s
         else let (continue, s') = f k v s;
                  this = \<lparr>vkey = k, vvalue = v, vcontinue = continue, vafter = s'\<rparr>
              in if \<not> continue then [this]
                 else this # Range_loop z f keys s')"

text \<open>\<open>Range\<close> runs the loop over a result of \<open>Keys\<close>, taken before the first iteration.\<close>

inductive Range_SyncMap ::
  "'v \<Rightarrow> ('k \<Rightarrow> 'v \<Rightarrow> 'c \<times> ('k, 'v) SyncMap \<Rightarrow> bool \<times> 'c \<times> ('k, 'v) SyncMap) \<Rightarrow>
   'c \<times> ('k, 'v) SyncMap \<Rightarrow> ('k, 'v, 'c) visit list \<Rightarrow> bool" where
  Range_SyncMapI: "Keys (snd s) keys \<Longrightarrow> Range_SyncMap z f s (Range_loop z f keys s)"

text \<open>
  The state a visit starts in is the state the visit before it left, and the state at the
  call of \<open>Range\<close> for the first. \<open>current s vs\<close>: every visit of \<open>vs\<close>, started from \<open>s\<close>,
  was handed a key and the value the map held for that key when the visit started.
\<close>

fun current :: "'c \<times> ('k, 'v) SyncMap \<Rightarrow> ('k, 'v, 'c) visit list \<Rightarrow> bool" where
  "current s [] = True"
| "current s (e # es) =
     (fmlookup (wrapped (snd s)) (vkey e) = Some (vvalue e) \<and> current (vafter e) es)"

text \<open>\<open>present k s vs\<close>: the map holds \<open>k\<close> at the call of \<open>Range\<close> and after every visit.\<close>

definition present :: "'k \<Rightarrow> 'c \<times> ('k, 'v) SyncMap \<Rightarrow> ('k, 'v, 'c) visit list \<Rightarrow> bool" where
  "present k s vs \<longleftrightarrow>
     k \<in> fmdom' (wrapped (snd s)) \<and> list_all (\<lambda>e. k \<in> fmdom' (wrapped (snd (vafter e)))) vs"

text \<open>
  \<open>calls f s vs\<close>: the visits of \<open>vs\<close> are calls of \<open>f\<close>, the first made in state \<open>s\<close>
  and each later one in the state the one before it left, and they record what \<open>f\<close>
  returned there.
\<close>

fun calls ::
  "('k \<Rightarrow> 'v \<Rightarrow> 'c \<times> ('k, 'v) SyncMap \<Rightarrow> bool \<times> 'c \<times> ('k, 'v) SyncMap) \<Rightarrow>
   'c \<times> ('k, 'v) SyncMap \<Rightarrow> ('k, 'v, 'c) visit list \<Rightarrow> bool" where
  "calls f s [] = True"
| "calls f s (e # es) =
     (f (vkey e) (vvalue e) s = (vcontinue e, vafter e) \<and> calls f (vafter e) es)"

section \<open>ratelim: one limiter per key\<close>

subsection \<open>Origin\<close>

text \<open>
  Of \<^verbatim>\<open>*url.URL\<close> the code reads the field \<open>Scheme\<close> and the results of the methods
  \<open>Hostname()\<close>, \<open>Port()\<close> and \<open>String()\<close> of the standard library, which the record holds
  under the same names. \<^verbatim>\<open>strings.ToLower\<close>, also of the standard library, is a
  parameter of \<open>Origin\<close>. \<^verbatim>\<open>strings.TrimLeft(s, cutset)\<close> removes the leading bytes of
  \<open>s\<close> that occur in \<open>cutset\<close>, for a cutset of ASCII characters as here.
\<close>

record URL =
  Scheme :: string
  Hostname :: string
  Port :: string
  String :: string

definition TrimLeft :: "string \<Rightarrow> string \<Rightarrow> string" where
  "TrimLeft s cutset = dropWhile (\<lambda>c. c \<in> set cutset) s"

definition Origin :: "(string \<Rightarrow> string) \<Rightarrow> URL \<Rightarrow> string" where
  "Origin ToLower url =
     (let host = ToLower (Hostname url);
          port = TrimLeft (Port url) ''0''
      in if port = [] then Scheme url @ ''://'' @ host
         else let (defaultPort, ok) =
                    (case map_of [(''http'', ''80''), (''https'', ''443'')] (Scheme url) of
                       Some p \<Rightarrow> (p, True)
                     | None \<Rightarrow> ([], False))
              in if ok \<and> port = defaultPort then Scheme url @ ''://'' @ host
                 else Scheme url @ ''://'' @ host @ '':'' @ port)"

text \<open>The conventional default port of a scheme, as the specification lists them.\<close>

definition default_port :: "string \<Rightarrow> string option" where
  "default_port scheme =
     (if scheme = ''http'' then Some ''80''
      else if scheme = ''https'' then Some ''443''
      else None)"

subsection \<open>PerKeyRoundTripper\<close>

text \<open>
  A \<^verbatim>\<open>*rate.Limiter\<close> is a pointer: \<open>nil\<close> or the address of a limiter on the heap.
  The heap is the list of the limiters allocated so far, the address of a limiter being
  its position. Of a limiter the record holds the limit and the burst it was made with: a
  \<^verbatim>\<open>rate.Limit\<close> is a float64, held as its 64 bits, since this package stores
  and passes limits and computes nothing from them; the burst is a Go \<^verbatim>\<open>int\<close>.
  \<^verbatim>\<open>rate.NewLimiter(r, b)\<close> of golang.org/x/time/rate allocates a new limiter.
\<close>

datatype Limiter_ptr = nil | Addr nat

type_synonym Limit = "64 word"

record Limiter_obj =
  lim_limit :: Limit
  lim_burst :: "64 word"

definition NewLimiter :: "Limit \<Rightarrow> 64 word \<Rightarrow> Limiter_obj list \<Rightarrow> Limiter_ptr \<times> Limiter_obj list" where
  "NewLimiter r b h = (Addr (length h), h @ [\<lparr>lim_limit = r, lim_burst = b\<rparr>])"

text \<open>
  Of \<^verbatim>\<open>*http.Request\<close> the code reads \<open>Method\<close>, \<open>URL\<close> and \<open>Context()\<close>; a context, an
  \<^verbatim>\<open>*http.Response\<close> and an \<^verbatim>\<open>io.Writer\<close> are opaque handles, an \<^verbatim>\<open>error\<close> is
  its message, and \<open>None\<close> is Go's \<open>nil\<close> for each of them.
\<close>

record Request =
  Method :: string
  URL :: URL
  Context :: nat

definition TargetOrigin :: "(string \<Rightarrow> string) \<Rightarrow> Request \<Rightarrow> string" where
  "TargetOrigin ToLower r = Origin ToLower (URL r)"

datatype Response = Response nat

datatype error = Error string

datatype Writer = Discard | Writer nat

record Logger =
  out :: Writer

record 'k PerKeyRoundTripper =
  defaultLimit :: Limit
  defaultBurst :: "64 word"
  keyFunc :: "Request \<Rightarrow> 'k"
  limiters :: "('k, Limiter_ptr) SyncMap"
  RoundTripper :: "Request \<Rightarrow> Response option \<times> error option"
  Logger :: "Logger option"

text \<open>
  One line of the trace: the arguments of the \<open>Printf\<close> call of \<open>RoundTrip\<close> after the
  receiver, whose type \<^verbatim>\<open>%T\<close> prints.
\<close>

record 'k Trace =
  trace_key :: 'k
  wait_ms :: "64 word"
  resp_ms :: "64 word"
  total_ms :: "64 word"
  trace_method :: string
  trace_url :: string

text \<open>
  The state the methods of a \<open>PerKeyRoundTripper\<close> run in: the struct, the heap of the
  limiters, the requests passed on to the underlying \<open>RoundTripper\<close> so far, in order, and
  the lines printed by the \<open>Logger\<close> so far.
\<close>

record 'k World =
  tripper :: "'k PerKeyRoundTripper"
  heap :: "Limiter_obj list"
  forwarded :: "Request list"
  printed :: "'k Trace list"

definition LimiterDefaults :: "'k World \<Rightarrow> Limit \<times> 64 word" where
  "LimiterDefaults w = (defaultLimit (tripper w), defaultBurst (tripper w))"

definition SetLimiterDefaults :: "'k World \<Rightarrow> Limit \<Rightarrow> 64 word \<Rightarrow> 'k World" where
  "SetLimiterDefaults w limit burst =
     w\<lparr>tripper := (tripper w)\<lparr>defaultLimit := limit, defaultBurst := burst\<rparr>\<rparr>"

definition Key :: "'k World \<Rightarrow> Request \<Rightarrow> 'k" where
  "Key w req = keyFunc (tripper w) req"

definition Limiter :: "'k World \<Rightarrow> Request \<Rightarrow> Limiter_ptr \<times> 'k World" where
  "Limiter w req =
     (let k = Key w req;
          (limit, burst) = LimiterDefaults w;
          (new, h) = NewLimiter limit burst (heap w);
          ((limiter, _), m) = LoadOrStore nil (limiters (tripper w)) k new
      in (limiter, w\<lparr>tripper := (tripper w)\<lparr>limiters := m\<rparr>, heap := h\<rparr>))"

definition Limiters :: "'k World \<Rightarrow> ('k, Limiter_ptr) SyncMap" where
  "Limiters w = limiters (tripper w)"

text \<open>
  \<^verbatim>\<open>func (d Duration) Milliseconds() int64 { return int64(d) / 1e6 }\<close>: a Duration is
  an int64 of nanoseconds, and Go's division of integers truncates towards zero.
\<close>

definition Milliseconds :: "64 word \<Rightarrow> 64 word" where
  "Milliseconds d = word_of_int (sint d sdiv 1000000)"

text \<open>
  What one call of \<open>RoundTrip\<close> takes from outside the package: the result of
  \<^verbatim>\<open>limiter.Wait(ctx)\<close> of golang.org/x/time/rate, as a function of the limiter and
  the context, and the two readings of \<^verbatim>\<open>time.Since(start)\<close>, the first after
  \<open>Wait\<close> has returned and the second in the deferred function. Calling \<open>Wait\<close> on a nil
  limiter dereferences nil: the call of \<open>RoundTrip\<close> panics.
\<close>

record RoundTrip_env =
  Wait :: "Limiter_ptr \<Rightarrow> nat \<Rightarrow> error option"
  since_wait :: "64 word"
  since_total :: "64 word"

datatype outcome = Panic | Return "Response option" "error option"

definition RoundTrip :: "RoundTrip_env \<Rightarrow> 'k World \<Rightarrow> Request \<Rightarrow> outcome \<times> 'k World" where
  "RoundTrip env w req =
     (let (limiter, w1) = Limiter w req
      in if limiter = nil then (Panic, w1)
         else case Wait env limiter (Context req) of
           Some err \<Rightarrow> (Return None (Some err), w1)
         | None \<Rightarrow>
             (let wait = since_wait env;
                  (resp, err) = RoundTripper (tripper w1) req;
                  w2 = w1\<lparr>forwarded := forwarded w1 @ [req]\<rparr>;
                  w3 = (case Logger (tripper w2) of
                          None \<Rightarrow> w2
                        | Some logger \<Rightarrow>
                            if out logger = Discard then w2
                            else let total = since_total env
                                 in w2\<lparr>printed := printed w2 @
                                      [\<lparr>trace_key = Key w2 req,
                                        wait_ms = Milliseconds wait,
                                        resp_ms = Milliseconds (total - wait),
                                        total_ms = Milliseconds total,
                                        trace_method = Method req,
                                        trace_url = String (URL req)\<rparr>]\<rparr>)
              in (Return resp err, w3)))"

text \<open>
  \<^verbatim>\<open>func NewPerKeyRoundTripper[K comparable](defaultLimit, defaultBurst, keyFunc, roundTripper)\<close>;
  \<open>defaultTransport\<close>, the \<^verbatim>\<open>*http.Transport\<close> used for a nil \<open>roundTripper\<close>, is a
  parameter.
\<close>

definition NewPerKeyRoundTripper ::
  "(Request \<Rightarrow> Response option \<times> error option) \<Rightarrow> Limit \<Rightarrow> 64 word \<Rightarrow> (Request \<Rightarrow> 'k) \<Rightarrow>
   (Request \<Rightarrow> Response option \<times> error option) option \<Rightarrow> 'k PerKeyRoundTripper" where
  "NewPerKeyRoundTripper defaultTransport limit burst kf roundTripper =
     \<lparr>defaultLimit = limit, defaultBurst = burst, keyFunc = kf, limiters = New,
      RoundTripper = (case roundTripper of None \<Rightarrow> defaultTransport | Some rt \<Rightarrow> rt),
      Logger = None\<rparr>"

definition PerOriginRoundTripper ::
  "(Request \<Rightarrow> Response option \<times> error option) \<Rightarrow> (string \<Rightarrow> string) \<Rightarrow> Limit \<Rightarrow> 64 word \<Rightarrow>
   (Request \<Rightarrow> Response option \<times> error option) option \<Rightarrow> string PerKeyRoundTripper" where
  "PerOriginRoundTripper defaultTransport ToLower limit burst roundTripper =
     NewPerKeyRoundTripper defaultTransport limit burst (TargetOrigin ToLower) roundTripper"

text \<open>
  \<open>sink w\<close>: a trace sink is configured, that is, the \<open>Logger\<close> is not nil and its writer
  is not \<^verbatim>\<open>io.Discard\<close>.
\<close>

definition sink :: "'k World \<Rightarrow> bool" where
  "sink w = (case Logger (tripper w) of None \<Rightarrow> False | Some logger \<Rightarrow> out logger \<noteq> Discard)"

subsection \<open>The operations as steps\<close>

text \<open>
  The registry of a \<open>PerKeyRoundTripper\<close> is reached through \<open>Limiters()\<close>, so a caller
  may run every method of the map on it, besides the tripper's own methods. One step is
  one call: its label is the method with its arguments and what the call returned.
  \<open>Range\<close> is no step of its own: it is a call of \<open>Keys\<close>, a \<open>Load\<close> for each key, and
  the calls that \<open>f\<close> makes.
\<close>

datatype 'k op =
    OLoad 'k
  | OStore 'k Limiter_ptr
  | OSwap 'k Limiter_ptr
  | ODelete 'k
  | OLoadAndDelete 'k
  | OLoadOrStore 'k Limiter_ptr
  | OCompareAndSwap 'k Limiter_ptr Limiter_ptr
  | OCompareAndDelete 'k Limiter_ptr
  | OKeys
  | OClear
  | OCall "('k, Limiter_ptr) fmap \<Rightarrow> ('k, Limiter_ptr) fmap"
  | OLimiterDefaults
  | OSetLimiterDefaults Limit "64 word"
  | OKey Request
  | OLimiter Request
  | ORoundTrip RoundTrip_env Request

datatype 'k ret =
    Unit
  | Loaded Limiter_ptr bool
  | Done bool
  | KeyList "'k list"
  | Defaults Limit "64 word"
  | TheKey 'k
  | TheLimiter Limiter_ptr
  | Outcome outcome

definition with_limiters :: "'k World \<Rightarrow> ('k, Limiter_ptr) SyncMap \<Rightarrow> 'k World" where
  "with_limiters w m = w\<lparr>tripper := (tripper w)\<lparr>limiters := m\<rparr>\<rparr>"

inductive step :: "'k World \<Rightarrow> 'k op \<Rightarrow> 'k ret \<Rightarrow> 'k World \<Rightarrow> bool" where
  step_Load:
    "Load nil (Limiters w) k = (v, ok) \<Longrightarrow> step w (OLoad k) (Loaded v ok) w"
| step_Store:
    "Store nil (Limiters w) k v = m \<Longrightarrow> step w (OStore k v) Unit (with_limiters w m)"
| step_Swap:
    "Swap nil (Limiters w) k v = ((p, ok), m) \<Longrightarrow>
     step w (OSwap k v) (Loaded p ok) (with_limiters w m)"
| step_Delete:
    "Delete nil (Limiters w) k = m \<Longrightarrow> step w (ODelete k) Unit (with_limiters w m)"
| step_LoadAndDelete:
    "LoadAndDelete nil (Limiters w) k = ((v, ok), m) \<Longrightarrow>
     step w (OLoadAndDelete k) (Loaded v ok) (with_limiters w m)"
| step_LoadOrStore:
    "LoadOrStore nil (Limiters w) k v = ((a, ok), m) \<Longrightarrow>
     step w (OLoadOrStore k v) (Loaded a ok) (with_limiters w m)"
| step_CompareAndSwap:
    "CompareAndSwap nil (Limiters w) k old new = (b, m) \<Longrightarrow>
     step w (OCompareAndSwap k old new) (Done b) (with_limiters w m)"
| step_CompareAndDelete:
    "CompareAndDelete nil (Limiters w) k old = (b, m) \<Longrightarrow>
     step w (OCompareAndDelete k old) (Done b) (with_limiters w m)"
| step_Keys:
    "Keys (Limiters w) keys \<Longrightarrow> step w OKeys (KeyList keys) w"
| step_Clear:
    "Clear (Limiters w) = m \<Longrightarrow> step w OClear Unit (with_limiters w m)"
| step_Call:
    "Call (Limiters w) f = m \<Longrightarrow> step w (OCall f) Unit (with_limiters w m)"
| step_LimiterDefaults:
    "LimiterDefaults w = (l, b) \<Longrightarrow> step w OLimiterDefaults (Defaults l b) w"
| step_SetLimiterDefaults:
    "SetLimiterDefaults w l b = w' \<Longrightarrow> step w (OSetLimiterDefaults l b) Unit w'"
| step_Key:
    "Key w req = k \<Longrightarrow> step w (OKey req) (TheKey k) w"
| step_Limiter:
    "Limiter w req = (a, w') \<Longrightarrow> step w (OLimiter req) (TheLimiter a) w'"
| step_RoundTrip:
    "RoundTrip env w req = (res, w') \<Longrightarrow> step w (ORoundTrip env req) (Outcome res) w'"

text \<open>
  A run is a sequence of steps; its trace lists, for each step, the state it started in,
  the call and what the call returned.
\<close>

inductive steps :: "'k World \<Rightarrow> ('k World \<times> 'k op \<times> 'k ret) list \<Rightarrow> 'k World \<Rightarrow> bool" where
  steps_Nil: "steps w [] w"
| steps_Cons: "step w c r w' \<Longrightarrow> steps w' tr w'' \<Longrightarrow> steps w ((w, c, r) # tr) w''"

text \<open>
  \<open>creates w k c\<close>: the call \<open>c\<close>, made in state \<open>w\<close>, is a get-or-create for the key \<open>k\<close>.
  \<open>asks w k c\<close>: it is a \<open>Load\<close>, a \<open>LoadOrStore\<close> or a \<open>Limiter\<close> call for \<open>k\<close>.
  \<open>value_of r\<close>: the limiter that such a call returned.
\<close>

fun creates :: "'k World \<Rightarrow> 'k \<Rightarrow> 'k op \<Rightarrow> bool" where
  "creates w k (OLoadOrStore k' v) = (k' = k)"
| "creates w k (OLimiter req) = (Key w req = k)"
| "creates w k _ = False"

fun asks :: "'k World \<Rightarrow> 'k \<Rightarrow> 'k op \<Rightarrow> bool" where
  "asks w k (OLoad k') = (k' = k)"
| "asks w k (OLoadOrStore k' v) = (k' = k)"
| "asks w k (OLimiter req) = (Key w req = k)"
| "asks w k _ = False"

fun value_of :: "'k ret \<Rightarrow> Limiter_ptr option" where
  "value_of (Loaded v ok) = Some v"
| "value_of (TheLimiter v) = Some v"
| "value_of _ = None"

text \<open>
  \<open>listed k c\<close>: the call \<open>c\<close> is one of those that overwrite the key \<open>k\<close> (\<open>Store\<close>,
  \<open>Swap\<close>, \<open>CompareAndSwap\<close>), remove it (\<open>Delete\<close>, \<open>LoadAndDelete\<close>,
  \<open>CompareAndDelete\<close>) or clear the registry.
  \<open>raw w k c\<close>: the call is a \<open>Call\<close> whose function, run on the map of state \<open>w\<close>,
  changes what the map holds for \<open>k\<close>.
\<close>

fun listed :: "'k \<Rightarrow> 'k op \<Rightarrow> bool" where
  "listed k (OStore k' v) = (k' = k)"
| "listed k (OSwap k' v) = (k' = k)"
| "listed k (OCompareAndSwap k' old new) = (k' = k)"
| "listed k (ODelete k') = (k' = k)"
| "listed k (OLoadAndDelete k') = (k' = k)"
| "listed k (OCompareAndDelete k' old) = (k' = k)"
| "listed k OClear = True"
| "listed k _ = False"

fun raw :: "'k World \<Rightarrow> 'k \<Rightarrow> 'k op \<Rightarrow> bool" where
  "raw w k (OCall f) =
     (fmlookup (f (wrapped (Limiters w))) k \<noteq> fmlookup (wrapped (Limiters w)) k)"
| "raw w k _ = False"

subsection \<open>Example states\<close>

text \<open>
  A map of three keys and a function for \<open>Range\<close> that notes the keys it is handed and,
  on the key \<open>a\<close>, deletes the key \<open>b\<close>; \<open>ex_visits\<close> are the visits of \<open>Range\<close> when
  \<open>Keys\<close> returns \<open>a\<close>, \<open>b\<close>, \<open>c\<close> in this order.
\<close>

definition ex_map :: "(string, int) SyncMap" where
  "ex_map = \<lparr>wrapped = fmupd ''a'' 1 (fmupd ''b'' 2 (fmupd ''c'' 3 fmempty))\<rparr>"

definition ex_visit ::
  "string \<Rightarrow> int \<Rightarrow> string list \<times> (string, int) SyncMap \<Rightarrow>
   bool \<times> string list \<times> (string, int) SyncMap" where
  "ex_visit k v s = (True, fst s @ [k], if k = ''a'' then Delete 0 (snd s) ''b'' else snd s)"

definition ex_visits :: "(string, int, string list) visit list" where
  "ex_visits =
     [\<lparr>vkey = ''a'', vvalue = 1, vcontinue = True,
        vafter = ([''a''], ex_map\<lparr>wrapped := fmdrop ''b'' (wrapped ex_map)\<rparr>)\<rparr>,
      \<lparr>vkey = ''c'', vvalue = 3, vcontinue = True,
        vafter = ([''a'', ''c''], ex_map\<lparr>wrapped := fmdrop ''b'' (wrapped ex_map)\<rparr>)\<rparr>]"

text \<open>
  Two requests, keyed by host name; a tripper with a logger whose registry holds the
  limiter at address 0 for the key \<open>a\<close>; a tripper without logger and with an empty
  registry, with two limiters of the caller on the heap.
\<close>

definition ex_req :: Request where
  "ex_req = \<lparr>Method = ''GET'',
     URL = \<lparr>Scheme = ''http'', Hostname = ''a'', Port = [], String = ''http://a/1''\<rparr>,
     Context = 0\<rparr>"

definition ex_req_b :: Request where
  "ex_req_b = \<lparr>Method = ''GET'',
     URL = \<lparr>Scheme = ''http'', Hostname = ''b'', Port = [], String = ''http://b/1''\<rparr>,
     Context = 0\<rparr>"

definition ex_world :: "string World" where
  "ex_world =
     \<lparr>tripper = \<lparr>defaultLimit = 5, defaultBurst = 1, keyFunc = (\<lambda>r. Hostname (URL r)),
         limiters = \<lparr>wrapped = fmupd ''a'' (Addr 0) fmempty\<rparr>,
         RoundTripper = (\<lambda>r. (Some (Response 0), None)),
         Logger = Some \<lparr>out = Writer 0\<rparr>\<rparr>,
      heap = [\<lparr>lim_limit = 5, lim_burst = 1\<rparr>], forwarded = [], printed = []\<rparr>"

definition ex_empty :: "string World" where
  "ex_empty =
     \<lparr>tripper = \<lparr>defaultLimit = 5, defaultBurst = 1, keyFunc = (\<lambda>r. Hostname (URL r)),
         limiters = New,
         RoundTripper = (\<lambda>r. (Some (Response 0), None)),
         Logger = None\<rparr>,
      heap = [\<lparr>lim_limit = 5, lim_burst = 1\<rparr>, \<lparr>lim_limit = 9, lim_burst = 3\<rparr>],
      forwarded = [], printed = []\<rparr>"

text \<open>A call whose \<open>Wait\<close> is admitted after 1 ms, and one whose \<open>Wait\<close> is cancelled.\<close>

definition ex_env :: RoundTrip_env where
  "ex_env = \<lparr>Wait = (\<lambda>l c. None), since_wait = 1000000, since_total = 3500000\<rparr>"

definition ex_env_cancelled :: RoundTrip_env where
  "ex_env_cancelled = \<lparr>Wait = (\<lambda>l c. Some (Error ''context canceled'')),
     since_wait = 1000000, since_total = 3000000\<rparr>"

text \<open>
  A run from \<open>ex_empty\<close>: \<open>LoadOrStore\<close> of the key \<open>a\<close>, then a \<open>Call\<close> that puts another
  limiter under \<open>a\<close>.
\<close>

definition cx_w1 :: "string World" where
  "cx_w1 = with_limiters ex_empty \<lparr>wrapped = fmupd ''a'' (Addr 0) fmempty\<rparr>"

definition cx_w2 :: "string World" where
  "cx_w2 = with_limiters cx_w1 \<lparr>wrapped = fmupd ''a'' (Addr 1) (fmupd ''a'' (Addr 0) fmempty)\<rparr>"

text \<open>
  Another run from \<open>ex_empty\<close>: \<open>Limiter\<close> for a request of key \<open>a\<close>, then \<open>Store\<close> of the
  key \<open>b\<close>, then a \<open>Call\<close> that deletes \<open>b\<close>.
\<close>

definition wit_w1 :: "string World" where
  "wit_w1 = snd (Limiter ex_empty ex_req)"

definition wit_w2 :: "string World" where
  "wit_w2 = with_limiters wit_w1 (Store nil (Limiters wit_w1) ''b'' (Addr 0))"

definition wit_w3 :: "string World" where
  "wit_w3 = with_limiters wit_w2 (Call (Limiters wit_w2) (fmdrop ''b''))"

section \<open>Properties of the map\<close>

lemma index_Some: "fmlookup w k = Some a \<Longrightarrow> index z w k = (a, True)"
  by (simp add: index_def)

lemma index_None: "fmlookup w k = None \<Longrightarrow> index z w k = (z, False)"
  by (simp add: index_def)

lemma fmdrop_absent: "fmlookup w k = None \<Longrightarrow> fmdrop k w = w"
  by (rule fmap_ext) auto

subsection \<open>The write section alone does what the whole method does\<close>

text \<open>
  \<open>LoadAndDelete\<close>, \<open>LoadOrStore\<close>, \<open>CompareAndSwap\<close> and \<open>CompareAndDelete\<close> read the
  map under the read lock first and return early on what they read; otherwise they take
  the write lock and look the key up again. Another goroutine may change the map between
  the two sections. Each write section, run on any map, returns and leaves what the whole
  method does on that map when nothing interferes: a call is decided by one critical
  section, its read section when it returns early (that section changes nothing), its
  write section otherwise. So the methods as functions of one map state describe the
  calls of concurrent goroutines too, each taken at the section that decides it.
\<close>

lemma LoadAndDelete_locked_eq: "LoadAndDelete_locked z m k = LoadAndDelete z m k"
  by (cases "fmlookup (wrapped m) k")
     (simp_all add: LoadAndDelete_def LoadAndDelete_locked_def Load_def index_def fmdrop_absent)

lemma LoadOrStore_locked_eq: "LoadOrStore_locked z m k v = LoadOrStore z m k v"
  by (simp add: LoadOrStore_def LoadOrStore_locked_def Load_def split: prod.splits)

lemma CompareAndSwap_locked_eq:
  "CompareAndSwap_locked z m k old new = CompareAndSwap z m k old new"
  by (simp add: CompareAndSwap_def CompareAndSwap_locked_def Load_def split: prod.splits)

lemma CompareAndDelete_locked_eq:
  "CompareAndDelete_locked z m k old = CompareAndDelete z m k old"
  by (simp add: CompareAndDelete_def CompareAndDelete_locked_def Load_def split: prod.splits)

subsection \<open>LoadOrStore\<close>

lemma LoadOrStore_present:
  "fmlookup (wrapped m) k = Some a \<Longrightarrow> LoadOrStore z m k v = ((a, True), m)"
  by (simp add: LoadOrStore_def Load_def index_Some)

lemma LoadOrStore_absent:
  "fmlookup (wrapped m) k = None \<Longrightarrow>
   LoadOrStore z m k v = ((v, False), m\<lparr>wrapped := fmupd k v (wrapped m)\<rparr>)"
  by (simp add: LoadOrStore_def LoadOrStore_locked_def Load_def index_None)

text \<open>
  Claim C2. If the map holds the value \<open>a\<close> for the key \<open>k\<close>, \<open>LoadOrStore(k, v)\<close> returns
  \<open>(a, true)\<close> and leaves the map as it is. If the map holds nothing for \<open>k\<close>, it returns
  \<open>(v, false)\<close> and leaves the map with \<open>v\<close> stored under \<open>k\<close> and every other key as
  before, so that a \<open>Load\<close> of \<open>k\<close> then finds \<open>v\<close>.
\<close>

theorem LoadOrStore_returns_existing_or_installs:
  "(fmlookup (wrapped m) k = Some a \<longrightarrow> LoadOrStore z m k v = ((a, True), m)) \<and>
   (fmlookup (wrapped m) k = None \<longrightarrow>
      LoadOrStore z m k v = ((v, False), m\<lparr>wrapped := fmupd k v (wrapped m)\<rparr>) \<and>
      Load z (snd (LoadOrStore z m k v)) k = (v, True))"
  by (simp add: LoadOrStore_present LoadOrStore_absent Load_def index_Some)

theorem LoadOrStore_returns_existing_or_installs_witness:
  "LoadOrStore (0::int) \<lparr>wrapped = fmupd ''a'' 5 fmempty\<rparr> ''a'' 7
     = ((5, True), \<lparr>wrapped = fmupd ''a'' 5 fmempty\<rparr>) \<and>
   LoadOrStore (0::int) \<lparr>wrapped = fmupd ''a'' 5 fmempty\<rparr> ''b'' 7
     = ((7, False), \<lparr>wrapped = fmupd ''b'' 7 (fmupd ''a'' 5 fmempty)\<rparr>) \<and>
   Load (0::int) (snd (LoadOrStore 0 \<lparr>wrapped = fmupd ''a'' 5 fmempty\<rparr> ''b'' 7)) ''b'' = (7, True)"
  using LoadOrStore_returns_existing_or_installs
          [of "\<lparr>wrapped = fmupd ''a'' (5::int) fmempty\<rparr>" "''a''" 5 0 7]
        LoadOrStore_returns_existing_or_installs
          [of "\<lparr>wrapped = fmupd ''a'' (5::int) fmempty\<rparr>" "''b''" 5 0 7]
  by (simp add: Load_def index_def)

subsection \<open>CompareAndSwap and CompareAndDelete\<close>

text \<open>
  For a key the map holds, \<open>CompareAndSwap\<close> stores \<open>new\<close> and returns true when the
  value held equals \<open>old\<close>, and otherwise returns false and changes nothing.
\<close>

lemma CompareAndSwap_present:
  "fmlookup (wrapped m) k = Some a \<Longrightarrow>
   CompareAndSwap z m k old new =
     (if a = old then (True, m\<lparr>wrapped := fmupd k new (wrapped m)\<rparr>) else (False, m))"
  by (simp add: CompareAndSwap_def CompareAndSwap_locked_def Load_def index_Some)

text \<open>
  For a key the map does not hold, both lookups of \<open>CompareAndSwap\<close> yield the zero value
  and the \<open>ok\<close> result is dropped, so the comparison is one of the zero value with \<open>old\<close>.
\<close>

lemma CompareAndSwap_absent:
  "fmlookup (wrapped m) k = None \<Longrightarrow>
   CompareAndSwap z m k old new =
     (if old = z then (True, m\<lparr>wrapped := fmupd k new (wrapped m)\<rparr>) else (False, m))"
  by (auto simp add: CompareAndSwap_def CompareAndSwap_locked_def Load_def index_None)

text \<open>
  \<open>CompareAndDelete\<close> tests the \<open>ok\<close> result: it removes the key and returns true exactly
  when the map holds \<open>old\<close> for it.
\<close>

lemma CompareAndDelete_eq:
  "CompareAndDelete z m k old =
     (if fmlookup (wrapped m) k = Some old then (True, m\<lparr>wrapped := fmdrop k (wrapped m)\<rparr>)
      else (False, m))"
  by (cases "fmlookup (wrapped m) k")
     (auto simp add: CompareAndDelete_def CompareAndDelete_locked_def Load_def index_def)

text \<open>
  Claim C3 says that \<open>CompareAndSwap(k, old, new)\<close> stores \<open>new\<close> and returns true only
  if the value stored for \<open>k\<close> equals \<open>old\<close>, and that in every other case, also when the
  map has no entry for \<open>k\<close>, it returns false and leaves the map unchanged. On the empty
  map of limiters, with \<open>old\<close> the nil pointer, the code returns true and stores \<open>new\<close>
  under the key, which had no entry.
\<close>

theorem CompareAndSwap_absent_key_nil_old:
  "CompareAndSwap nil (New :: (string, Limiter_ptr) SyncMap) ''http://a'' nil (Addr 0)
     = (True, \<lparr>wrapped = fmupd ''http://a'' (Addr 0) fmempty\<rparr>)"
  by (simp add: CompareAndSwap_def CompareAndSwap_locked_def Load_def index_def New_def)

subsection \<open>Clear\<close>

text \<open>
  Claim C7. Whatever the registry holds, after \<open>Clear()\<close> the only result of \<open>Keys()\<close>
  is the empty slice, and \<open>Load(k)\<close> returns not found, with the zero value, for every
  key \<open>k\<close>, whether the registry held it before or not.
\<close>

theorem Clear_empties:
  "(Keys (Clear m) keys \<longleftrightarrow> keys = []) \<and> Load z (Clear m) k = (z, False)"
  by (auto simp: Keys_def Clear_def Load_def index_def)

subsection \<open>Store and Swap, Delete and LoadAndDelete\<close>

lemma Store_eq: "Store z m k v = m\<lparr>wrapped := fmupd k v (wrapped m)\<rparr>"
  by (simp add: Store_def Swap_def split: prod.splits)

lemma Delete_eq: "Delete z m k = m\<lparr>wrapped := fmdrop k (wrapped m)\<rparr>"
  by (cases "fmlookup (wrapped m) k")
     (simp_all add: Delete_def LoadAndDelete_def LoadAndDelete_locked_def Load_def index_def
        fmdrop_absent)

text \<open>
  Claim C10. For every map, key and value, \<open>Store(k, v)\<close> leaves the map that
  \<open>Swap(k, v)\<close> leaves, which is the map before with \<open>v\<close> under \<open>k\<close>; and \<open>Delete(k)\<close>
  leaves the map that \<open>LoadAndDelete(k)\<close> leaves, which is the map before without \<open>k\<close>.
\<close>

theorem Store_is_Swap_Delete_is_LoadAndDelete:
  "Store z m k v = snd (Swap z m k v) \<and>
   snd (Swap z m k v) = m\<lparr>wrapped := fmupd k v (wrapped m)\<rparr> \<and>
   Delete z m k = snd (LoadAndDelete z m k) \<and>
   snd (LoadAndDelete z m k) = m\<lparr>wrapped := fmdrop k (wrapped m)\<rparr>"
  using Store_eq [of z m k v] Delete_eq [of z m k]
  by (simp add: Store_def Delete_def)

subsection \<open>Range\<close>

text \<open>One iteration of the loop does one of three things.\<close>

lemma Range_loop_skip:
  "Load z (snd s) k = (v, False) \<Longrightarrow> Range_loop z f (k # keys) s = Range_loop z f keys s"
  by simp

lemma Range_loop_stop:
  "Load z (snd s) k = (v, True) \<Longrightarrow> f k v s = (False, s') \<Longrightarrow>
   Range_loop z f (k # keys) s = [\<lparr>vkey = k, vvalue = v, vcontinue = False, vafter = s'\<rparr>]"
  by simp

lemma Range_loop_go:
  "Load z (snd s) k = (v, True) \<Longrightarrow> f k v s = (True, s') \<Longrightarrow>
   Range_loop z f (k # keys) s =
     \<lparr>vkey = k, vvalue = v, vcontinue = True, vafter = s'\<rparr> # Range_loop z f keys s'"
  by simp

lemma Range_loop_cases [case_names skip stop go]:
  obtains
    (skip) v where "Load z (snd s) k = (v, False)"
      "Range_loop z f (k # keys) s = Range_loop z f keys s"
  | (stop) v s' where "Load z (snd s) k = (v, True)" "f k v s = (False, s')"
      "Range_loop z f (k # keys) s = [\<lparr>vkey = k, vvalue = v, vcontinue = False, vafter = s'\<rparr>]"
  | (go) v s' where "Load z (snd s) k = (v, True)" "f k v s = (True, s')"
      "Range_loop z f (k # keys) s =
         \<lparr>vkey = k, vvalue = v, vcontinue = True, vafter = s'\<rparr> # Range_loop z f keys s'"
proof -
  obtain v ok where ld: "Load z (snd s) k = (v, ok)"
    by (cases "Load z (snd s) k")
  obtain c s' where fr: "f k v s = (c, s')"
    by (cases "f k v s")
  show thesis
  proof (cases ok)
    case False
    with ld have l: "Load z (snd s) k = (v, False)"
      by simp
    show thesis
      by (rule skip [OF l Range_loop_skip [OF l]])
  next
    case True
    with ld have l: "Load z (snd s) k = (v, True)"
      by simp
    show thesis
    proof (cases c)
      case True
      with fr have r: "f k v s = (True, s')"
        by simp
      show thesis
        by (rule go [OF l r Range_loop_go [of z s k v f s', OF l r]])
    next
      case False
      with fr have r: "f k v s = (False, s')"
        by simp
      show thesis
        by (rule stop [OF l r Range_loop_stop [of z s k v f s', OF l r]])
    qed
  qed
qed

declare Range_loop.simps(2) [simp del]

lemma Load_True: "Load z m k = (v, True) \<Longrightarrow> fmlookup (wrapped m) k = Some v"
  by (auto simp: Load_def index_def split: option.splits)

lemma Load_False: "Load z m k = (v, False) \<Longrightarrow> fmlookup (wrapped m) k = None"
  by (auto simp: Load_def index_def split: option.splits)

lemma Range_loop_keys: "vkey ` set (Range_loop z f keys s) \<subseteq> set keys"
proof (induction keys arbitrary: s)
  case Nil
  show ?case by simp
next
  case (Cons k keys)
  show ?case
  proof (cases rule: Range_loop_cases [of z s k f keys])
    case (skip v)
    then show ?thesis using Cons.IH [of s] by auto
  next
    case (stop v s')
    then show ?thesis by simp
  next
    case (go v s')
    then show ?thesis using Cons.IH [of s'] by auto
  qed
qed

lemma Range_loop_distinct: "distinct keys \<Longrightarrow> distinct (map vkey (Range_loop z f keys s))"
proof (induction keys arbitrary: s)
  case Nil
  show ?case by simp
next
  case (Cons k keys)
  show ?case
  proof (cases rule: Range_loop_cases [of z s k f keys])
    case (skip v)
    then show ?thesis using Cons by simp
  next
    case (stop v s')
    then show ?thesis by simp
  next
    case (go v s')
    have "k \<notin> vkey ` set (Range_loop z f keys s')"
      using Range_loop_keys [of z f keys s'] Cons.prems by auto
    then show ?thesis using go Cons by simp
  qed
qed

lemma Range_loop_current: "current s (Range_loop z f keys s)"
proof (induction keys arbitrary: s)
  case Nil
  show ?case by simp
next
  case (Cons k keys)
  show ?case
  proof (cases rule: Range_loop_cases [of z s k f keys])
    case (skip v)
    then show ?thesis using Cons.IH by simp
  next
    case (stop v s')
    then show ?thesis by (simp add: Load_True)
  next
    case (go v s')
    then show ?thesis using Cons.IH by (simp add: Load_True)
  qed
qed

lemma Range_loop_calls: "calls f s (Range_loop z f keys s)"
proof (induction keys arbitrary: s)
  case Nil
  show ?case by simp
next
  case (Cons k keys)
  show ?case
  proof (cases rule: Range_loop_cases [of z s k f keys])
    case (skip v)
    then show ?thesis using Cons.IH by simp
  next
    case (stop v s')
    then show ?thesis by simp
  next
    case (go v s')
    then show ?thesis using Cons.IH by simp
  qed
qed

lemma Range_loop_stops: "list_all vcontinue (butlast (Range_loop z f keys s))"
proof (induction keys arbitrary: s)
  case Nil
  show ?case by simp
next
  case (Cons k keys)
  show ?case
  proof (cases rule: Range_loop_cases [of z s k f keys])
    case (skip v)
    then show ?thesis using Cons.IH by simp
  next
    case (stop v s')
    then show ?thesis by simp
  next
    case (go v s')
    then show ?thesis using Cons.IH by simp
  qed
qed

text \<open>
  A key of the list that the map holds at the start and after every visit is visited,
  when no visit returns false.
\<close>

lemma Range_loop_visits:
  "k \<in> set keys \<Longrightarrow> list_all vcontinue (Range_loop z f keys s) \<Longrightarrow>
   present k s (Range_loop z f keys s) \<Longrightarrow> k \<in> vkey ` set (Range_loop z f keys s)"
proof (induction keys arbitrary: s)
  case Nil
  then show ?case by simp
next
  case (Cons k' keys)
  show ?case
  proof (cases rule: Range_loop_cases [of z s k' f keys])
    case (skip v)
    have "k \<noteq> k'"
      using Cons.prems(3) Load_False [OF skip(1)]
      by (auto simp: present_def fmlookup_dom'_iff)
    then show ?thesis
      using Cons skip(2) by simp
  next
    case (stop v s')
    then show ?thesis
      using Cons.prems(2) by simp
  next
    case (go v s')
    show ?thesis
    proof (cases "k = k'")
      case True
      then show ?thesis
        using go(3) by simp
    next
      case False
      then have mem: "k \<in> set keys"
        using Cons.prems(1) by simp
      have "list_all vcontinue (Range_loop z f keys s')"
        using Cons.prems(2) go(3) by simp
      moreover have "present k s' (Range_loop z f keys s')"
        using Cons.prems(3) go(3) by (simp add: present_def)
      ultimately have "k \<in> vkey ` set (Range_loop z f keys s')"
        using Cons.IH mem by blast
      then show ?thesis
        using go(3) by simp
    qed
  qed
qed

lemma distinct_once:
  "distinct (map g xs) \<Longrightarrow> k \<in> g ` set xs \<Longrightarrow> length (filter (\<lambda>e. g e = k) xs) = 1"
proof (induction xs)
  case Nil
  then show ?case by simp
next
  case (Cons x xs)
  show ?case
  proof (cases "g x = k")
    case True
    then have "k \<notin> g ` set xs"
      using Cons.prems(1) by auto
    then have "filter (\<lambda>e. g e = k) xs = []"
      by (auto simp: filter_empty_conv)
    then show ?thesis
      using True by simp
  next
    case False
    then show ?thesis
      using Cons by auto
  qed
qed

text \<open>
  Claim C6. Let \<open>vs\<close> be the visits of a call of \<open>Range(f)\<close> started in state \<open>s\<close>, where
  \<open>f\<close> may change the map. The visits are calls of \<open>f\<close>, each made in the state the one
  before it left. No key is visited twice, and only keys that the map held at the start
  are visited. Every visit is handed the value that the map holds for its key when the
  visit starts: a key whose entry was removed before the loop reached it is skipped, and
  a value replaced before that is not handed over. Every visit but the last returned true:
  the loop stops at the first visit that returns false. When no visit returns false, a
  key that the map holds at the start and after every visit is visited exactly once.
\<close>

theorem Range_visits_each_key_at_most_once:
  assumes "Range_SyncMap z f s vs"
  shows "distinct (map vkey vs) \<and>
         vkey ` set vs \<subseteq> fmdom' (wrapped (snd s)) \<and>
         calls f s vs \<and>
         current s vs \<and>
         list_all vcontinue (butlast vs) \<and>
         (list_all vcontinue vs \<and> present k s vs \<longrightarrow>
            length (filter (\<lambda>e. vkey e = k) vs) = 1)"
  using assms
proof cases
  case (Range_SyncMapI keys)
  then have d: "distinct keys" and ks: "set keys = fmdom' (wrapped (snd s))"
    by (simp_all add: Keys_def)
  have 1: "distinct (map vkey vs)"
    using d Range_SyncMapI(1) by (simp add: Range_loop_distinct)
  have 2: "vkey ` set vs \<subseteq> fmdom' (wrapped (snd s))"
    using Range_loop_keys [of z f keys s] ks Range_SyncMapI(1) by simp
  have 3: "length (filter (\<lambda>e. vkey e = k) vs) = 1"
    if "list_all vcontinue vs" "present k s vs"
  proof -
    have "k \<in> set keys"
      using that(2) ks by (simp add: present_def)
    then have "k \<in> vkey ` set vs"
      using that Range_SyncMapI(1) Range_loop_visits [of k keys z f s] by simp
    then show ?thesis
      using 1 by (rule distinct_once [rotated])
  qed
  show ?thesis
    using 1 2 3 Range_SyncMapI(1)
    by (simp add: Range_loop_calls Range_loop_current Range_loop_stops)
qed

theorem Range_visits_each_key_at_most_once_witness:
  "Range_SyncMap 0 ex_visit ([], ex_map) ex_visits \<and>
   list_all vcontinue ex_visits \<and> present ''c'' ([], ex_map) ex_visits \<and>
   distinct (map vkey ex_visits) \<and>
   length (filter (\<lambda>e. vkey e = ''c'') ex_visits) = 1 \<and>
   length (filter (\<lambda>e. vkey e = ''b'') ex_visits) = 0"
proof -
  have k: "Keys (snd ([] :: string list, ex_map)) [''a'', ''b'', ''c'']"
    by (auto simp: Keys_def ex_map_def)
  have r: "Range_loop 0 ex_visit [''a'', ''b'', ''c''] ([], ex_map) = ex_visits"
    by (simp add: Range_loop.simps(2) Load_def index_def ex_visit_def ex_visits_def Delete_eq
          ex_map_def)
  have R: "Range_SyncMap 0 ex_visit ([], ex_map) ex_visits"
    using Range_SyncMapI [OF k, of 0 ex_visit] r by simp
  have c: "list_all vcontinue ex_visits" "present ''c'' ([], ex_map) ex_visits"
    "length (filter (\<lambda>e. vkey e = ''b'') ex_visits) = 0"
    by (simp_all add: ex_visits_def present_def ex_map_def)
  show ?thesis
    using Range_visits_each_key_at_most_once [OF R, of "''c''"] R c by simp
qed

section \<open>Properties of the round tripper\<close>

subsection \<open>Origin\<close>

lemma takeWhile_eq_replicate:
  "takeWhile (\<lambda>c. c = x) xs = replicate (length (takeWhile (\<lambda>c. c = x) xs)) x"
  by (induction xs) simp_all

lemma takeWhile_dropWhile_Nil: "takeWhile P (dropWhile P xs) = []"
  by (induction xs) simp_all

text \<open>
  \<open>TrimLeft s ''0''\<close> is \<open>s\<close> without its leading zeros: \<open>s\<close> is some zeros followed by
  it, and it does not start with a zero.
\<close>

lemma TrimLeft_zeros:
  "s = replicate (length (takeWhile (\<lambda>c. c = CHR ''0'') s)) (CHR ''0'') @ TrimLeft s ''0'' \<and>
   takeWhile (\<lambda>c. c = CHR ''0'') (TrimLeft s ''0'') = []"
proof -
  have "s = takeWhile (\<lambda>c. c = CHR ''0'') s @ dropWhile (\<lambda>c. c = CHR ''0'') s"
    by simp
  then show ?thesis
    using takeWhile_eq_replicate [of "CHR ''0''" s]
    by (simp add: TrimLeft_def takeWhile_dropWhile_Nil)
qed

text \<open>
  Claim C5. For every URL, the origin is the scheme, \<open>://\<close> and the lower-cased host
  name, followed by a colon and the port without its leading zeros when the URL has a
  port that, without its leading zeros, is not empty and is not the default port of the
  scheme (80 for http, 443 for https; no other scheme has one), and followed by nothing
  otherwise. \<open>TargetOrigin\<close> is the origin of the URL of the request.
\<close>

theorem Origin_scheme_host_port:
  "Origin ToLower u =
     Scheme u @ ''://'' @ ToLower (Hostname u) @
       (if Port u \<noteq> [] \<and> TrimLeft (Port u) ''0'' \<noteq> [] \<and>
           Some (TrimLeft (Port u) ''0'') \<noteq> default_port (Scheme u)
        then '':'' @ TrimLeft (Port u) ''0'' else []) \<and>
   TargetOrigin ToLower r = Origin ToLower (URL r)"
  by (auto simp: Origin_def TargetOrigin_def default_port_def TrimLeft_def Let_def)

lemma Origin_default_port_with_zeros:
  "Origin ToLower \<lparr>Scheme = ''http'', Hostname = ''A.com'', Port = ''0080'', String = s\<rparr>
     = ''http://'' @ ToLower ''A.com''"
  by (simp add: Origin_def TrimLeft_def)

lemma Origin_other_port:
  "Origin ToLower \<lparr>Scheme = ''https'', Hostname = ''A.com'', Port = ''08443'', String = s\<rparr>
     = ''https://'' @ ToLower ''A.com'' @ '':8443''"
  by (simp add: Origin_def TrimLeft_def)

lemma Origin_zero_port:
  "Origin ToLower \<lparr>Scheme = ''ftp'', Hostname = ''A.com'', Port = ''000'', String = s\<rparr>
     = ''ftp://'' @ ToLower ''A.com''"
  by (simp add: Origin_def TrimLeft_def)

subsection \<open>Limiter\<close>

lemma Limiter_present:
  "fmlookup (wrapped (Limiters w)) (Key w req) = Some a \<Longrightarrow>
   Limiter w req =
     (a, w\<lparr>heap := heap w @
          [\<lparr>lim_limit = defaultLimit (tripper w), lim_burst = defaultBurst (tripper w)\<rparr>]\<rparr>)"
  by (simp add: Limiter_def Limiters_def LimiterDefaults_def NewLimiter_def LoadOrStore_present)

lemma Limiter_absent:
  "fmlookup (wrapped (Limiters w)) (Key w req) = None \<Longrightarrow>
   Limiter w req =
     (Addr (length (heap w)),
      w\<lparr>tripper := (tripper w)\<lparr>limiters :=
           (Limiters w)\<lparr>wrapped := fmupd (Key w req) (Addr (length (heap w))) (wrapped (Limiters w))\<rparr>\<rparr>,
        heap := heap w @
          [\<lparr>lim_limit = defaultLimit (tripper w), lim_burst = defaultBurst (tripper w)\<rparr>]\<rparr>)"
  by (simp add: Limiter_def Limiters_def LimiterDefaults_def NewLimiter_def LoadOrStore_absent)

text \<open>
  \<open>Limiter\<close> changes the registry and the heap only, and on the heap it only allocates:
  the limiters that were there stay as they were.
\<close>

lemma Limiter_frame:
  "Limiter w req = (a, w') \<Longrightarrow>
   forwarded w' = forwarded w \<and> printed w' = printed w \<and>
   keyFunc (tripper w') = keyFunc (tripper w) \<and>
   RoundTripper (tripper w') = RoundTripper (tripper w) \<and>
   Logger (tripper w') = Logger (tripper w) \<and>
   defaultLimit (tripper w') = defaultLimit (tripper w) \<and>
   defaultBurst (tripper w') = defaultBurst (tripper w) \<and>
   take (length (heap w)) (heap w') = heap w"
  by (cases "fmlookup (wrapped (Limiters w)) (Key w req)")
     (auto simp: Limiter_present Limiter_absent)

subsection \<open>SetLimiterDefaults\<close>

text \<open>
  Claim C8. After \<open>SetLimiterDefaults(limit, burst)\<close>, \<open>LimiterDefaults\<close> returns that
  limit and burst, and the registry, the heap of the limiters and every other part of
  the state are as before. A \<open>Limiter\<close> call after it for a request whose key is
  registered returns the registered limiter, whatever the defaults are, and leaves the
  registry and the limiters on the heap as they were; for a request whose key is not
  registered it allocates a limiter with the new limit and burst and registers it.
\<close>

theorem SetLimiterDefaults_frame:
  "LimiterDefaults (SetLimiterDefaults w l b) = (l, b) \<and>
   Limiters (SetLimiterDefaults w l b) = Limiters w \<and>
   heap (SetLimiterDefaults w l b) = heap w \<and>
   keyFunc (tripper (SetLimiterDefaults w l b)) = keyFunc (tripper w) \<and>
   RoundTripper (tripper (SetLimiterDefaults w l b)) = RoundTripper (tripper w) \<and>
   Logger (tripper (SetLimiterDefaults w l b)) = Logger (tripper w) \<and>
   forwarded (SetLimiterDefaults w l b) = forwarded w \<and>
   printed (SetLimiterDefaults w l b) = printed w \<and>
   (fmlookup (wrapped (Limiters w)) (Key w req) = Some a \<longrightarrow>
      fst (Limiter (SetLimiterDefaults w l b) req) = a \<and>
      Limiters (snd (Limiter (SetLimiterDefaults w l b) req)) = Limiters w \<and>
      take (length (heap w)) (heap (snd (Limiter (SetLimiterDefaults w l b) req))) = heap w) \<and>
   (fmlookup (wrapped (Limiters w)) (Key w req) = None \<longrightarrow>
      fst (Limiter (SetLimiterDefaults w l b) req) = Addr (length (heap w)) \<and>
      heap (snd (Limiter (SetLimiterDefaults w l b) req))
        = heap w @ [\<lparr>lim_limit = l, lim_burst = b\<rparr>] \<and>
      Load nil (Limiters (snd (Limiter (SetLimiterDefaults w l b) req))) (Key w req)
        = (Addr (length (heap w)), True))"
proof -
  let ?w = "SetLimiterDefaults w l b"
  have 1: "Limiters ?w = Limiters w" "heap ?w = heap w" "Key ?w req = Key w req"
    "defaultLimit (tripper ?w) = l" "defaultBurst (tripper ?w) = b"
    by (simp_all add: SetLimiterDefaults_def Limiters_def Key_def)
  have 2: "LimiterDefaults ?w = (l, b)"
    by (simp add: LimiterDefaults_def 1)
  have 3: "fst (Limiter ?w req) = a \<and> Limiters (snd (Limiter ?w req)) = Limiters w \<and>
      take (length (heap w)) (heap (snd (Limiter ?w req))) = heap w"
    if "fmlookup (wrapped (Limiters w)) (Key w req) = Some a"
    using that Limiter_present [of ?w req a]
    by (simp add: 1) (simp add: Limiters_def SetLimiterDefaults_def)
  have 4: "fst (Limiter ?w req) = Addr (length (heap w)) \<and>
      heap (snd (Limiter ?w req)) = heap w @ [\<lparr>lim_limit = l, lim_burst = b\<rparr>] \<and>
      Load nil (Limiters (snd (Limiter ?w req))) (Key w req) = (Addr (length (heap w)), True)"
    if "fmlookup (wrapped (Limiters w)) (Key w req) = None"
    using that Limiter_absent [of ?w req]
    by (simp add: 1) (simp add: Limiters_def Load_def index_def)
  show ?thesis
    using 1 2 3 4 by (simp add: SetLimiterDefaults_def)
qed

theorem SetLimiterDefaults_frame_witness:
  "fmlookup (wrapped (Limiters ex_world)) (Key ex_world ex_req) = Some (Addr 0) \<and>
   fmlookup (wrapped (Limiters ex_world)) (Key ex_world ex_req_b) = None \<and>
   fst (Limiter (SetLimiterDefaults ex_world 7 2) ex_req) = Addr 0 \<and>
   Limiters (snd (Limiter (SetLimiterDefaults ex_world 7 2) ex_req)) = Limiters ex_world \<and>
   fst (Limiter (SetLimiterDefaults ex_world 7 2) ex_req_b) = Addr 1 \<and>
   heap (snd (Limiter (SetLimiterDefaults ex_world 7 2) ex_req_b))
     = [\<lparr>lim_limit = 5, lim_burst = 1\<rparr>, \<lparr>lim_limit = 7, lim_burst = 2\<rparr>]"
proof -
  have a: "fmlookup (wrapped (Limiters ex_world)) (Key ex_world ex_req) = Some (Addr 0)"
    by (simp add: ex_world_def ex_req_def Limiters_def Key_def)
  have b: "fmlookup (wrapped (Limiters ex_world)) (Key ex_world ex_req_b) = None"
    by (simp add: ex_world_def ex_req_b_def Limiters_def Key_def)
  have h: "heap ex_world = [\<lparr>lim_limit = 5, lim_burst = 1\<rparr>]"
    by (simp add: ex_world_def)
  show ?thesis
    using SetLimiterDefaults_frame [of ex_world 7 2 ex_req "Addr 0"]
          SetLimiterDefaults_frame [of ex_world 7 2 ex_req_b "Addr 0"] a b h
    by simp
qed

subsection \<open>RoundTrip\<close>

text \<open>
  Claim C4. When \<open>Wait\<close> on the limiter of the request returns an error, \<open>RoundTrip\<close>
  returns a nil response and that error; the state it leaves is the one \<open>Limiter\<close> left,
  in which no request has been passed on to the underlying \<open>RoundTripper\<close> and no line
  has been printed beyond those before the call. (\<open>Wait\<close> returns only on a limiter that
  is not nil.)
\<close>

theorem RoundTrip_Wait_error:
  assumes "Limiter w req = (limiter, w1)"
    and "limiter \<noteq> nil"
    and "Wait env limiter (Context req) = Some err"
  shows "RoundTrip env w req = (Return None (Some err), w1) \<and>
         forwarded w1 = forwarded w \<and> printed w1 = printed w"
  using assms Limiter_frame [of w req limiter w1]
  by (simp add: RoundTrip_def)

theorem RoundTrip_Wait_error_witness:
  "RoundTrip ex_env_cancelled ex_world ex_req
     = (Return None (Some (Error ''context canceled'')),
        ex_world\<lparr>heap := heap ex_world @ [\<lparr>lim_limit = 5, lim_burst = 1\<rparr>]\<rparr>) \<and>
   forwarded (ex_world\<lparr>heap := heap ex_world @ [\<lparr>lim_limit = 5, lim_burst = 1\<rparr>]\<rparr>)
     = forwarded ex_world \<and>
   printed (ex_world\<lparr>heap := heap ex_world @ [\<lparr>lim_limit = 5, lim_burst = 1\<rparr>]\<rparr>)
     = printed ex_world"
proof -
  have l: "Limiter ex_world ex_req
     = (Addr 0, ex_world\<lparr>heap := heap ex_world @ [\<lparr>lim_limit = 5, lim_burst = 1\<rparr>]\<rparr>)"
    by (simp add: Limiter_present Limiters_def Key_def ex_world_def ex_req_def)
  show ?thesis
    using RoundTrip_Wait_error [OF l, of ex_env_cancelled "Error ''context canceled''"]
    by (simp add: ex_env_cancelled_def)
qed

lemma Milliseconds_examples:
  "Milliseconds 1000000 = 1" "Milliseconds 3500000 = 3" "Milliseconds 2500000 = 2"
  "Milliseconds (- 1500000) = - 1"
  by (simp_all add: Milliseconds_def signed_divide_int_def)

text \<open>
  Claim C9. When \<open>Wait\<close> on the limiter of the request returns no error, \<open>RoundTrip\<close>
  passes the request on to the underlying \<open>RoundTripper\<close>, once, and returns what that
  returns, response or error. If a trace sink is configured it prints exactly one line,
  which holds the key of the request, the milliseconds waited, the milliseconds from the
  end of the wait to the end of the call, the milliseconds of the whole call, and the
  method and the URL of the request; if none is configured, the \<open>Logger\<close> being nil or
  writing to \<^verbatim>\<open>io.Discard\<close>, it prints nothing.
\<close>

theorem RoundTrip_trace:
  assumes "Limiter w req = (limiter, w1)"
    and "limiter \<noteq> nil"
    and "Wait env limiter (Context req) = None"
  shows "fst (RoundTrip env w req)
           = Return (fst (RoundTripper (tripper w) req)) (snd (RoundTripper (tripper w) req)) \<and>
         forwarded (snd (RoundTrip env w req)) = forwarded w @ [req] \<and>
         printed (snd (RoundTrip env w req)) = printed w @
           (if sink w
            then [\<lparr>trace_key = Key w req,
                   wait_ms = Milliseconds (since_wait env),
                   resp_ms = Milliseconds (since_total env - since_wait env),
                   total_ms = Milliseconds (since_total env),
                   trace_method = Method req,
                   trace_url = String (URL req)\<rparr>]
            else [])"
  using assms Limiter_frame [of w req limiter w1]
  by (auto simp: RoundTrip_def sink_def Key_def Let_def split: prod.splits option.splits)

theorem RoundTrip_trace_witness:
  "fst (RoundTrip ex_env ex_world ex_req) = Return (Some (Response 0)) None \<and>
   forwarded (snd (RoundTrip ex_env ex_world ex_req)) = [ex_req] \<and>
   printed (snd (RoundTrip ex_env ex_world ex_req)) =
     [\<lparr>trace_key = ''a'', wait_ms = 1, resp_ms = 2, total_ms = 3,
       trace_method = ''GET'', trace_url = ''http://a/1''\<rparr>] \<and>
   printed (snd (RoundTrip ex_env (ex_world\<lparr>tripper := (tripper ex_world)\<lparr>Logger := None\<rparr>\<rparr>)
     ex_req)) = []"
proof -
  let ?w = "ex_world\<lparr>tripper := (tripper ex_world)\<lparr>Logger := None\<rparr>\<rparr>"
  have l: "Limiter ex_world ex_req
     = (Addr 0, ex_world\<lparr>heap := heap ex_world @ [\<lparr>lim_limit = 5, lim_burst = 1\<rparr>]\<rparr>)"
    by (simp add: Limiter_present Limiters_def Key_def ex_world_def ex_req_def)
  have l': "Limiter ?w ex_req
     = (Addr 0, ?w\<lparr>heap := heap ?w @ [\<lparr>lim_limit = 5, lim_burst = 1\<rparr>]\<rparr>)"
    by (simp add: Limiter_present Limiters_def Key_def ex_world_def ex_req_def)
  have n: "Addr 0 \<noteq> nil"
    by simp
  have e: "Wait ex_env (Addr 0) (Context ex_req) = None"
    by (simp add: ex_env_def)
  have s: "sink ex_world" "\<not> sink ?w" "Key ex_world ex_req = ''a''"
    "RoundTripper (tripper ex_world) ex_req = (Some (Response 0), None)"
    "forwarded ex_world = []" "printed ex_world = []" "printed ?w = []"
    "Method ex_req = ''GET''" "String (URL ex_req) = ''http://a/1''"
    "since_wait ex_env = 1000000" "since_total ex_env = 3500000"
    by (simp_all add: sink_def ex_world_def ex_req_def Key_def ex_env_def)
  show ?thesis
    using RoundTrip_trace [OF l n e] RoundTrip_trace [OF l' n e] s
    by (simp add: Milliseconds_examples)
qed

section \<open>One limiter per key\<close>

lemma Limiters_with_limiters [simp]: "Limiters (with_limiters w m) = m"
  by (simp add: Limiters_def with_limiters_def)

lemma LoadOrStore_lookup:
  "LoadOrStore z m k' v = ((a, ok), m') \<Longrightarrow> fmlookup (wrapped m') k' = Some a"
  by (cases "fmlookup (wrapped m) k'") (auto simp: LoadOrStore_present LoadOrStore_absent)

lemma LoadOrStore_keeps:
  "LoadOrStore z m k' v = (r, m') \<Longrightarrow> fmlookup (wrapped m) k = Some a \<Longrightarrow>
   fmlookup (wrapped m') k = Some a"
  by (cases "fmlookup (wrapped m) k'") (auto simp: LoadOrStore_present LoadOrStore_absent)

lemma Limiter_lookup:
  "Limiter w req = (a, w') \<Longrightarrow> fmlookup (wrapped (Limiters w')) (Key w req) = Some a"
  by (cases "fmlookup (wrapped (Limiters w)) (Key w req)")
     (auto simp: Limiter_present Limiter_absent Limiters_def)

lemma Limiter_keeps:
  "Limiter w req = (r, w') \<Longrightarrow> fmlookup (wrapped (Limiters w)) k = Some a \<Longrightarrow>
   fmlookup (wrapped (Limiters w')) k = Some a"
  by (cases "fmlookup (wrapped (Limiters w)) (Key w req)")
     (auto simp: Limiter_present Limiter_absent Limiters_def)

lemma RoundTrip_Limiters:
  "RoundTrip env w req = (r, w') \<Longrightarrow> Limiters w' = Limiters (snd (Limiter w req))"
  by (auto simp: RoundTrip_def Limiters_def Let_def split: prod.splits if_splits option.splits)

text \<open>
  A step that is neither one of the listed calls on \<open>k\<close> nor a \<open>Call\<close> that changes the
  entry of \<open>k\<close> leaves the entry of \<open>k\<close> as it is.
\<close>

lemma step_keeps:
  assumes "step w c r w'"
    and "fmlookup (wrapped (Limiters w)) k = Some a"
    and "\<not> listed k c" and "\<not> raw w k c"
  shows "fmlookup (wrapped (Limiters w')) k = Some a"
  using assms
proof (induction rule: step.induct)
  case (step_Store w k' v m)
  then show ?case by (auto simp: Store_eq)
next
  case (step_Swap w k' v p ok m)
  then show ?case by (auto simp: Swap_def split: prod.splits)
next
  case (step_Delete w k' m)
  then show ?case by (auto simp: Delete_eq)
next
  case (step_LoadAndDelete w k' v ok m)
  then show ?case
    using Delete_eq [of nil "Limiters w" k'] by (auto simp: Delete_def)
next
  case (step_LoadOrStore w k' v a' ok m)
  then show ?case
    using LoadOrStore_keeps by fastforce
next
  case (step_CompareAndSwap w k' old new b m)
  then show ?case
    by (cases "fmlookup (wrapped (Limiters w)) k'")
       (auto simp: CompareAndSwap_present CompareAndSwap_absent split: if_splits)
next
  case (step_CompareAndDelete w k' old b m)
  then show ?case
    by (auto simp: CompareAndDelete_eq split: if_splits)
next
  case (step_Call w f m)
  then show ?case by (auto simp: Call_def)
next
  case (step_SetLimiterDefaults w l b w')
  then show ?case by (auto simp: SetLimiterDefaults_def Limiters_def)
next
  case (step_Limiter w req a' w')
  then show ?case using Limiter_keeps by fastforce
next
  case (step_RoundTrip env w req res w')
  then show ?case
    using RoundTrip_Limiters [of env w req res w']
      Limiter_keeps [of w req "fst (Limiter w req)" "snd (Limiter w req)" k a]
    by simp
qed simp_all

lemma steps_keep:
  assumes "steps w tr w'"
    and "fmlookup (wrapped (Limiters w)) k = Some a"
    and "list_all (\<lambda>(w, c, r). \<not> listed k c \<and> \<not> raw w k c) tr"
  shows "fmlookup (wrapped (Limiters w')) k = Some a"
  using assms
proof (induction rule: steps.induct)
  case (steps_Nil w)
  then show ?case by simp
next
  case (steps_Cons w c r w' tr w'')
  then show ?case
    using step_keeps [of w c r w' k a] by simp
qed

text \<open>After a get-or-create for \<open>k\<close> the registry holds for \<open>k\<close> the limiter it returned.\<close>

lemma creates_lookup:
  assumes "step w c r w'" and "creates w k c" and "value_of r = Some a"
  shows "fmlookup (wrapped (Limiters w')) k = Some a"
  using assms
proof (induction rule: step.induct)
  case (step_LoadOrStore w k' v a' ok m)
  then show ?case using LoadOrStore_lookup by fastforce
next
  case (step_Limiter w req a' w')
  then show ?case using Limiter_lookup by fastforce
qed simp_all

text \<open>A \<open>Load\<close>, \<open>LoadOrStore\<close> or \<open>Limiter\<close> call for \<open>k\<close> returns what the registry holds.\<close>

lemma asks_value:
  assumes "step w c r w'" and "asks w k c" and "fmlookup (wrapped (Limiters w)) k = Some a"
  shows "value_of r = Some a \<and> fmlookup (wrapped (Limiters w')) k = Some a"
  using assms
proof (induction rule: step.induct)
  case (step_Load w k' v ok)
  then show ?case by (auto simp: Load_def index_def)
next
  case (step_LoadOrStore w k' v a' ok m)
  then show ?case by (auto simp: LoadOrStore_present)
next
  case (step_Limiter w req a' w')
  then show ?case by (auto simp: Limiter_present Limiters_def)
qed simp_all

text \<open>
  Claim C1, as it is stated, lets the limiter of a key change only through \<open>Store\<close>,
  \<open>Swap\<close>, \<open>CompareAndSwap\<close>, \<open>Delete\<close>, \<open>LoadAndDelete\<close> or \<open>CompareAndDelete\<close> on that
  key, or through \<open>Clear\<close>. In the run below \<open>LoadOrStore\<close> returns the limiter at address
  0 for the key \<open>a\<close>; the only call after it is a \<open>Call\<close>, which is none of those; and the
  \<open>Load\<close> of \<open>a\<close> that follows returns the limiter at address 1.
\<close>

theorem one_limiter_per_key_Call_counterexample:
  "step ex_empty (OLoadOrStore ''a'' (Addr 0)) (Loaded (Addr 0) False) cx_w1 \<and>
   creates ex_empty ''a'' (OLoadOrStore ''a'' (Addr 0)) \<and>
   value_of (Loaded (Addr 0) False :: string ret) = Some (Addr 0) \<and>
   steps cx_w1 [(cx_w1, OCall (fmupd ''a'' (Addr 1)), Unit)] cx_w2 \<and>
   \<not> listed ''a'' (OCall (fmupd ''a'' (Addr 1)) :: string op) \<and>
   step cx_w2 (OLoad ''a'') (Loaded (Addr 1) True) cx_w2 \<and>
   asks cx_w2 ''a'' (OLoad ''a'') \<and>
   value_of (Loaded (Addr 1) True :: string ret) \<noteq> Some (Addr 0)"
proof -
  have 1: "step ex_empty (OLoadOrStore ''a'' (Addr 0)) (Loaded (Addr 0) False) cx_w1"
    unfolding cx_w1_def
    by (rule step_LoadOrStore)
       (simp add: LoadOrStore_absent Limiters_def ex_empty_def New_def)
  have 2: "step cx_w1 (OCall (fmupd ''a'' (Addr 1))) Unit cx_w2"
    unfolding cx_w2_def
    by (rule step_Call) (simp add: Call_def cx_w1_def)
  have 3: "step cx_w2 (OLoad ''a'') (Loaded (Addr 1) True) cx_w2"
    by (rule step_Load) (simp add: Load_def index_def cx_w2_def)
  show ?thesis
    using 1 2 3 by (simp add: steps.intros)
qed

text \<open>
  Claim C1, amended. Once a get-or-create for the key \<open>k\<close> (\<open>LoadOrStore\<close> on the
  registry, or \<open>Limiter\<close> for a request of key \<open>k\<close>) has returned the limiter \<open>a\<close>, every
  later \<open>Load\<close>, \<open>LoadOrStore\<close> or \<open>Limiter\<close> call for \<open>k\<close> returns \<open>a\<close>, whatever calls
  were made in between, as long as none of them is a \<open>Store\<close>, \<open>Swap\<close>, \<open>CompareAndSwap\<close>,
  \<open>Delete\<close>, \<open>LoadAndDelete\<close> or \<open>CompareAndDelete\<close> on \<open>k\<close>, a \<open>Clear\<close>, or a \<open>Call\<close> whose
  function changes the entry of \<open>k\<close> in the map.
\<close>

theorem one_limiter_per_key:
  assumes "step w0 g r0 w1" and "creates w0 k g" and "value_of r0 = Some a"
    and "steps w1 tr w2"
    and "list_all (\<lambda>(w, c, r). \<not> listed k c \<and> \<not> raw w k c) tr"
    and "step w2 q r w3" and "asks w2 k q"
  shows "value_of r = Some a"
proof -
  have 1: "fmlookup (wrapped (Limiters w1)) k = Some a"
    by (rule creates_lookup [OF assms(1) assms(2) assms(3)])
  have 2: "fmlookup (wrapped (Limiters w2)) k = Some a"
    by (rule steps_keep [OF assms(4) 1 assms(5)])
  show ?thesis
    using asks_value [OF assms(6) assms(7) 2] by simp
qed

theorem one_limiter_per_key_witness:
  "step ex_empty (OLimiter ex_req) (TheLimiter (Addr 2)) wit_w1 \<and>
   creates ex_empty ''a'' (OLimiter ex_req) \<and>
   steps wit_w1 [(wit_w1, OStore ''b'' (Addr 0), Unit), (wit_w2, OCall (fmdrop ''b''), Unit)]
     wit_w3 \<and>
   step wit_w3 (OLimiter ex_req) (TheLimiter (fst (Limiter wit_w3 ex_req)))
     (snd (Limiter wit_w3 ex_req)) \<and>
   asks wit_w3 ''a'' (OLimiter ex_req) \<and>
   fst (Limiter wit_w3 ex_req) = Addr 2"
proof -
  have k: "Key ex_empty ex_req = ''a''"
    by (simp add: Key_def ex_empty_def ex_req_def)
  have ab: "fmlookup (wrapped (Limiters ex_empty)) (Key ex_empty ex_req) = None"
    by (simp add: Limiters_def ex_empty_def New_def)
  have "fst (Limiter ex_empty ex_req) = Addr 2"
    using Limiter_absent [OF ab] by (simp add: ex_empty_def)
  then have s0: "step ex_empty (OLimiter ex_req) (TheLimiter (Addr 2)) wit_w1"
    unfolding wit_w1_def
    by (intro step_Limiter) (metis prod.collapse)
  have c: "creates ex_empty ''a'' (OLimiter ex_req)"
    using k by simp
  have v: "value_of (TheLimiter (Addr 2) :: string ret) = Some (Addr 2)"
    by simp
  have s1: "step wit_w1 (OStore ''b'' (Addr 0)) Unit wit_w2"
    unfolding wit_w2_def by (rule step_Store) simp
  have s2: "step wit_w2 (OCall (fmdrop ''b'')) Unit wit_w3"
    unfolding wit_w3_def by (rule step_Call) simp
  have ss: "steps wit_w1
      [(wit_w1, OStore ''b'' (Addr 0), Unit), (wit_w2, OCall (fmdrop ''b''), Unit)] wit_w3"
    by (rule steps_Cons [OF s1 steps_Cons [OF s2 steps_Nil]])
  have la: "list_all (\<lambda>(w, c, r). \<not> listed ''a'' c \<and> \<not> raw w ''a'' c)
      [(wit_w1, OStore ''b'' (Addr 0), Unit), (wit_w2, OCall (fmdrop ''b''), Unit)]"
    by simp
  have k3: "Key wit_w3 ex_req = ''a''"
    by (simp add: Key_def wit_w3_def wit_w2_def wit_w1_def with_limiters_def Limiter_def
        ex_empty_def ex_req_def Let_def split: prod.splits)
  have q: "step wit_w3 (OLimiter ex_req) (TheLimiter (fst (Limiter wit_w3 ex_req)))
      (snd (Limiter wit_w3 ex_req))"
    by (rule step_Limiter) simp
  have a: "asks wit_w3 ''a'' (OLimiter ex_req)"
    using k3 by simp
  show ?thesis
    using one_limiter_per_key [OF s0 c v ss la q a] s0 c ss q a by simp
qed

end
